theory Spec2Isabelle
  imports Complex_Main "HOL-Library.Sublist"
begin

section \<open>Python values shared by the models\<close>

text \<open>
  The exceptions that the modelled functions of \<^verbatim>\<open>openquake/baselib/general.py\<close> and
  \<^verbatim>\<open>openquake/hazardlib/calc/filters.py\<close> raise, or that the Python operations they
  call raise. A function that can raise returns \<open>py_error + 'a\<close>, the error on the left.
\<close>

datatype py_error =
  ValueError | KeyError | IndexError | TypeError | AttributeError
  | OverflowError | AssertionError | ZeroDivisionError | RTreeError





section \<open>WeightedSequence\<close>

text \<open>
  \<^verbatim>\<open>class WeightedSequence(MutableSequence)\<close> keeps the items in \<^verbatim>\<open>self._seq\<close> and the
  total in \<^verbatim>\<open>self.weight\<close>. The items are stored without their weights.
\<close>

record ('a, 'w) WeightedSequence =
  seq :: "'a list"
  weight :: 'w










text \<open>
  \<^verbatim>\<open>__eq__\<close>: \<^verbatim>\<open>all(x == y for x, y in zip(self, other))\<close>. \<^verbatim>\<open>zip\<close> stops at the end of
  the shorter operand, and the weights are not read.
\<close>

definition eq_ws :: "('a, 'w) WeightedSequence \<Rightarrow> ('a, 'w) WeightedSequence \<Rightarrow> bool" where
  "eq_ws self other = list_all (\<lambda>(x, y). x = y) (zip (seq self) (seq other))"

text \<open>\<^verbatim>\<open>__lt__\<close> orders by weight; \<^verbatim>\<open>__len__\<close> is the number of items.\<close>

definition lt_ws :: "('a, 'w::ord) WeightedSequence \<Rightarrow> ('a, 'w) WeightedSequence \<Rightarrow> bool" where
  "lt_ws self other = (weight self < weight other)"









section \<open>block_splitter\<close>


text \<open>
  The value of \<^verbatim>\<open>key(item)\<close>. \<open>Unspecified\<close> is the string \<^verbatim>\<open>'Unspecified'\<close>, which
  \<^verbatim>\<open>nokey\<close> returns and \<^verbatim>\<open>prev_key\<close> starts from; \<open>Key k\<close> is any other value.
\<close>

datatype 'k item_key = Unspecified | Key 'k








section \<open>split_in_slices\<close>

text \<open>
  \<^verbatim>\<open>number / num_slices\<close> on two Python integers is true division: the exact quotient
  rounded to the nearest IEEE 754 binary64 value, ties to even. A binary64 value is
  \<open>mantissa * 2 ^ exponent\<close> with a mantissa of at most \<open>2 ^ 53\<close> in absolute value and
  an exponent from \<open>-1074\<close> to \<open>971\<close>.
\<close>

record double =
  mantissa :: int
  exponent :: int

definition double_value :: "double \<Rightarrow> rat" where
  "double_value x =
     (if 0 \<le> exponent x then of_int (mantissa x) * 2 ^ nat (exponent x)
      else of_int (mantissa x) / 2 ^ nat (- exponent x))"

text \<open>\<^verbatim>\<open>int.bit_length()\<close> of a positive integer.\<close>

function bit_length :: "int \<Rightarrow> nat" where
  "bit_length n = (if n \<le> 0 then 0 else Suc (bit_length (n div 2)))"
  by pat_completeness auto
termination
  by (relation "measure nat") auto

declare bit_length.simps [simp del]

text \<open>The fraction \<open>a / b\<close> times \<open>2 ^ s\<close>, as a numerator and a denominator.\<close>

definition scaled :: "int \<Rightarrow> int \<Rightarrow> int \<Rightarrow> int \<times> int" where
  "scaled a b s = (if 0 \<le> s then (a * 2 ^ nat s, b) else (a, b * 2 ^ nat (- s)))"

text \<open>The integer nearest to \<open>n / d\<close> for a positive \<open>d\<close>, a tie going to the even one.\<close>

definition round_half_even :: "int \<times> int \<Rightarrow> int" where
  "round_half_even nd =
     (case nd of (n, d) \<Rightarrow>
        (let m = n div d; r = n mod d
         in if 2 * r < d then m else if d < 2 * r then m + 1
            else if even m then m else m + 1))"

text \<open>The \<open>e\<close> with \<open>2 ^ e \<le> a / b < 2 ^ (e + 1)\<close>, for positive \<open>a\<close> and \<open>b\<close>.\<close>

definition float_exponent :: "int \<Rightarrow> int \<Rightarrow> int" where
  "float_exponent a b =
     (let d = int (bit_length a) - int (bit_length b)
      in case scaled a b (- d) of (n, m) \<Rightarrow> if m \<le> n then d else d - 1)"

text \<open>
  Rounding of \<open>a / b\<close> (both positive) to 53 significant bits; below \<open>2 ^ -1022\<close> the
  values are subnormal and share the exponent of \<open>2 ^ -1022\<close>.
\<close>

definition round_to_double :: "int \<Rightarrow> int \<Rightarrow> double" where
  "round_to_double a b =
     (let e = max (float_exponent a b) (- 1022)
      in \<lparr>mantissa = round_half_even (scaled a b (52 - e)), exponent = e - 52\<rparr>)"

text \<open>
  \<^verbatim>\<open>a / b\<close> on integers: ZeroDivisionError for a zero divisor, OverflowError when the
  rounded quotient reaches \<open>2 ^ 1024\<close>.
\<close>

definition true_div :: "int \<Rightarrow> int \<Rightarrow> py_error + double" where
  "true_div a b =
     (if b = 0 then Inl ZeroDivisionError
      else if a = 0 then Inr \<lparr>mantissa = 0, exponent = 0\<rparr>
      else (let r = round_to_double \<bar>a\<bar> \<bar>b\<bar>
            in if 971 < exponent r \<or> (exponent r = 971 \<and> 2 ^ 53 \<le> mantissa r)
               then Inl OverflowError
               else Inr (if (a < 0) = (b < 0) then r else r\<lparr>mantissa := - mantissa r\<rparr>)))"

text \<open>\<^verbatim>\<open>int(math.ceil(x))\<close> on a finite float.\<close>

definition math_ceil :: "double \<Rightarrow> int" where
  "math_ceil x =
     (if 0 \<le> exponent x then mantissa x * 2 ^ nat (exponent x)
      else - ((- mantissa x) div 2 ^ nat (- exponent x)))"

text \<open>\<^verbatim>\<open>slice(start, stop)\<close>, step \<^verbatim>\<open>None\<close>.\<close>

datatype slice = Slice (slice_start: int) (slice_stop: int)

text \<open>
  The \<^verbatim>\<open>while True\<close> loop of \<^verbatim>\<open>split_in_slices\<close>. It only leaves through
  \<^verbatim>\<open>break\<close>, so the model is partial: \<open>None\<close> is a loop that never ends.
\<close>

partial_function (option) slices_loop ::
  "int \<Rightarrow> int \<Rightarrow> int \<Rightarrow> slice list \<Rightarrow> slice list option" where
  "slices_loop blocksize number start slices =
     (let stop = min (start + blocksize) number;
          slices' = slices @ [Slice start stop]
      in if stop = number then Some slices'
         else slices_loop blocksize number (start + blocksize) slices')"

text \<open>
  \<^verbatim>\<open>split_in_slices(number, num_slices)\<close> on integers: the two assertions, then
  \<^verbatim>\<open>blocksize = int(math.ceil(number / num_slices))\<close>, then the loop.
\<close>

definition split_in_slices :: "int \<Rightarrow> int \<Rightarrow> (py_error + slice list) option" where
  "split_in_slices number num_slices =
     (if \<not> number > 0 then Some (Inl AssertionError)
      else if \<not> num_slices > 0 then Some (Inl AssertionError)
      else (case true_div number num_slices of
              Inl e \<Rightarrow> Some (Inl e)
            | Inr q \<Rightarrow> map_option Inr (slices_loop (math_ceil q) number 0 [])))"

text \<open>
  What the specification asks of the slices: the first starts at \<open>lo\<close>, each one is
  non-empty and starts where the one before stopped, and the last stops at \<open>hi\<close>.
\<close>

fun contiguous :: "int \<Rightarrow> slice list \<Rightarrow> int \<Rightarrow> bool" where
  "contiguous lo [] hi = (lo = hi)"
| "contiguous lo (s # ss) hi = (slice_start s = lo \<and> lo < slice_stop s \<and> contiguous (slice_stop s) ss hi)"

section \<open>AccumDict\<close>

text \<open>
  The values an \<^verbatim>\<open>AccumDict\<close> of the models holds: an integer, or a reference to a list
  object in the heap. Lists are mutable and can be shared, so a list value is its address
  and the heap gives the list stored there; the elements of the lists are integers. A
  new list object gets the next free address. Python never holds an address of no object,
  so the models are read on heaps that hold every address in use.
\<close>

datatype pyval = IntV int | ListV nat

type_synonym heap = "int list list"

definition heap_alloc :: "heap \<Rightarrow> int list \<Rightarrow> nat \<times> heap" where
  "heap_alloc h xs = (length h, h @ [xs])"

text \<open>\<^verbatim>\<open>lst.extend(xs)\<close>: the list object at \<open>r\<close> grows in place.\<close>

definition list_extend :: "heap \<Rightarrow> nat \<Rightarrow> int list \<Rightarrow> heap" where
  "list_extend h r xs = h[r := h ! r @ xs]"

text \<open>What a value is worth in a heap: the integer, or the content of the list.\<close>

datatype pyobj = IntO int | ListO "int list"

fun value_of :: "heap \<Rightarrow> pyval \<Rightarrow> pyobj" where
  "value_of h (IntV i) = IntO i"
| "value_of h (ListV r) = ListO (h ! r)"

text \<open>\<^verbatim>\<open>copy.deepcopy(v)\<close>: an integer is itself, a list is copied into a new object.\<close>

fun deepcopy :: "heap \<Rightarrow> pyval \<Rightarrow> pyval \<times> heap" where
  "deepcopy h (IntV i) = (IntV i, h)"
| "deepcopy h (ListV r) = (case heap_alloc h (h ! r) of (r', h') \<Rightarrow> (ListV r', h'))"

text \<open>
  \<^verbatim>\<open>x + y\<close>: the sum of two integers, a new list for two lists, TypeError otherwise.
  \<^verbatim>\<open>x - y\<close>: the difference of two integers, TypeError otherwise.
\<close>

fun py_add :: "heap \<Rightarrow> pyval \<Rightarrow> pyval \<Rightarrow> py_error + (pyval \<times> heap)" where
  "py_add h (IntV a) (IntV b) = Inr (IntV (a + b), h)"
| "py_add h (ListV r) (ListV s) =
     (case heap_alloc h (h ! r @ h ! s) of (r', h') \<Rightarrow> Inr (ListV r', h'))"
| "py_add h _ _ = Inl TypeError"

fun py_sub :: "pyval \<Rightarrow> pyval \<Rightarrow> py_error + pyval" where
  "py_sub (IntV a) (IntV b) = Inr (IntV (a - b))"
| "py_sub _ _ = Inl TypeError"

text \<open>
  A \<^verbatim>\<open>dict\<close> keeps its keys in insertion order: \<^verbatim>\<open>d[k] = v\<close> replaces the value of a
  key that is present and adds a new key at the end.
\<close>

fun dict_set :: "'k \<Rightarrow> 'v \<Rightarrow> ('k \<times> 'v) list \<Rightarrow> ('k \<times> 'v) list" where
  "dict_set k v [] = [(k, v)]"
| "dict_set k v (p # ps) = (if fst p = k then (k, v) # ps else p # dict_set k v ps)"

definition dict_update :: "('k \<times> 'v) list \<Rightarrow> ('k \<times> 'v) list \<Rightarrow> ('k \<times> 'v) list" where
  "dict_update dic d = fold (\<lambda>(k, v). dict_set k v) dic d"

text \<open>
  \<^verbatim>\<open>class AccumDict(dict)\<close>: the entries of the dictionary and the attribute
  \<^verbatim>\<open>self.accum\<close> (\<open>None\<close> for Python's \<^verbatim>\<open>None\<close>).
\<close>

record 'k AccumDict =
  entries :: "('k \<times> pyval) list"
  accum :: "pyval option"

text \<open>\<^verbatim>\<open>__init__(self, dic=None, accum=None)\<close>: \<^verbatim>\<open>self.update(dic)\<close>, then the attribute.\<close>

definition init_ad :: "('k \<times> pyval) list \<Rightarrow> pyval option \<Rightarrow> 'k AccumDict" where
  "init_ad dic acc = \<lparr>entries = dict_update dic [], accum = acc\<rparr>"

definition setitem_ad :: "'k \<Rightarrow> pyval \<Rightarrow> 'k AccumDict \<Rightarrow> 'k AccumDict" where
  "setitem_ad k v d = d\<lparr>entries := dict_set k v (entries d)\<rparr>"

text \<open>
  \<^verbatim>\<open>__missing__(self, key)\<close>: KeyError without an accumulator; otherwise a deep copy of
  the accumulator is stored under the key and returned.
\<close>

definition missing_ad ::
  "heap \<Rightarrow> 'k AccumDict \<Rightarrow> 'k \<Rightarrow> py_error + (pyval \<times> heap \<times> 'k AccumDict)" where
  "missing_ad h d key =
     (case accum d of
        None \<Rightarrow> Inl KeyError
      | Some t \<Rightarrow> (case deepcopy h t of (val, h') \<Rightarrow> Inr (val, h', setitem_ad key val d)))"

text \<open>\<^verbatim>\<open>self[key]\<close>: the value of a key that is present, \<^verbatim>\<open>__missing__\<close> otherwise.\<close>

definition getitem_ad ::
  "heap \<Rightarrow> 'k AccumDict \<Rightarrow> 'k \<Rightarrow> py_error + (pyval \<times> heap \<times> 'k AccumDict)" where
  "getitem_ad h d key =
     (case map_of (entries d) key of
        Some v \<Rightarrow> Inr (v, h, d)
      | None \<Rightarrow> missing_ad h d key)"

text \<open>
  The right operand of an operator: a mapping (it has \<^verbatim>\<open>items\<close>), or anything else,
  which is applied to every value.
\<close>

datatype 'k operand = Mapping "('k \<times> pyval) list" | Scalar pyval

text \<open>
  \<^verbatim>\<open>__iadd__\<close>, the loop over \<^verbatim>\<open>other.items()\<close>: a new key takes the value of
  \<^verbatim>\<open>other\<close> as it is (the same object); when the value of \<^verbatim>\<open>other\<close> is a list,
  \<^verbatim>\<open>self[k].extend(v)\<close> grows the list held by \<^verbatim>\<open>self\<close> in place (an integer has no
  \<^verbatim>\<open>extend\<close>); otherwise \<^verbatim>\<open>self[k] = self[k] + v\<close>.
\<close>

fun iadd_items ::
  "('k \<times> pyval) list \<Rightarrow> heap \<Rightarrow> 'k AccumDict \<Rightarrow> py_error + (heap \<times> 'k AccumDict)" where
  "iadd_items [] h d = Inr (h, d)"
| "iadd_items ((k, v) # kvs) h d =
     (case map_of (entries d) k of
        None \<Rightarrow> iadd_items kvs h (setitem_ad k v d)
      | Some cur \<Rightarrow>
          (case v of
             ListV s \<Rightarrow>
               (case cur of
                  ListV r \<Rightarrow> iadd_items kvs (list_extend h r (h ! s)) d
                | IntV _ \<Rightarrow> Inl AttributeError)
           | IntV _ \<Rightarrow>
               (case py_add h cur v of
                  Inl e \<Rightarrow> Inl e
                | Inr (res, h') \<Rightarrow> iadd_items kvs h' (setitem_ad k res d))))"

text \<open>\<^verbatim>\<open>for k in self: self[k] = self[k] + other\<close>.\<close>

fun iadd_all ::
  "pyval \<Rightarrow> heap \<Rightarrow> ('k \<times> pyval) list \<Rightarrow> py_error + (heap \<times> ('k \<times> pyval) list)" where
  "iadd_all other h [] = Inr (h, [])"
| "iadd_all other h ((k, v) # kvs) =
     (case py_add h v other of
        Inl e \<Rightarrow> Inl e
      | Inr (res, h') \<Rightarrow>
          (case iadd_all other h' kvs of
             Inl e \<Rightarrow> Inl e
           | Inr (h'', kvs') \<Rightarrow> Inr (h'', (k, res) # kvs')))"

definition iadd_ad ::
  "heap \<Rightarrow> 'k AccumDict \<Rightarrow> 'k operand \<Rightarrow> py_error + (heap \<times> 'k AccumDict)" where
  "iadd_ad h self other =
     (case other of
        Mapping kvs \<Rightarrow> iadd_items kvs h self
      | Scalar x \<Rightarrow>
          (case iadd_all x h (entries self) of
             Inl e \<Rightarrow> Inl e
           | Inr (h', kvs') \<Rightarrow> Inr (h', self\<lparr>entries := kvs'\<rparr>)))"

text \<open>
  \<^verbatim>\<open>__add__\<close>: \<^verbatim>\<open>new = self.__class__(self); new += other; return new\<close>. The new
  dictionary gets the entries of \<^verbatim>\<open>self\<close>, the very same value objects, and no
  accumulator.
\<close>

definition add_ad ::
  "heap \<Rightarrow> 'k AccumDict \<Rightarrow> 'k operand \<Rightarrow> py_error + (heap \<times> 'k AccumDict)" where
  "add_ad h self other = iadd_ad h (init_ad (entries self) None) other"

text \<open>
  \<^verbatim>\<open>__isub__\<close>, the loop over \<^verbatim>\<open>other.items()\<close>:
  \<^verbatim>\<open>try: self[k] = self[k] - v\<close>, \<^verbatim>\<open>except KeyError: self[k] = v\<close>. Reading \<^verbatim>\<open>self[k]\<close>
  goes through \<^verbatim>\<open>__missing__\<close> when the key is not there.
\<close>

fun isub_items ::
  "('k \<times> pyval) list \<Rightarrow> heap \<Rightarrow> 'k AccumDict \<Rightarrow> py_error + (heap \<times> 'k AccumDict)" where
  "isub_items [] h d = Inr (h, d)"
| "isub_items ((k, v) # kvs) h d =
     (case getitem_ad h d k of
        Inl e \<Rightarrow> (if e = KeyError then isub_items kvs h (setitem_ad k v d) else Inl e)
      | Inr (cur, h', d') \<Rightarrow>
          (case py_sub cur v of
             Inl e \<Rightarrow> (if e = KeyError then isub_items kvs h' (setitem_ad k v d') else Inl e)
           | Inr res \<Rightarrow> isub_items kvs h' (setitem_ad k res d')))"

text \<open>\<^verbatim>\<open>for k in self: self[k] = self[k] - other\<close>.\<close>

fun isub_all :: "pyval \<Rightarrow> ('k \<times> pyval) list \<Rightarrow> py_error + ('k \<times> pyval) list" where
  "isub_all other [] = Inr []"
| "isub_all other ((k, v) # kvs) =
     (case py_sub v other of
        Inl e \<Rightarrow> Inl e
      | Inr res \<Rightarrow>
          (case isub_all other kvs of
             Inl e \<Rightarrow> Inl e
           | Inr kvs' \<Rightarrow> Inr ((k, res) # kvs')))"

definition isub_ad ::
  "heap \<Rightarrow> 'k AccumDict \<Rightarrow> 'k operand \<Rightarrow> py_error + (heap \<times> 'k AccumDict)" where
  "isub_ad h self other =
     (case other of
        Mapping kvs \<Rightarrow> isub_items kvs h self
      | Scalar x \<Rightarrow>
          (case isub_all x (entries self) of
             Inl e \<Rightarrow> Inl e
           | Inr kvs' \<Rightarrow> Inr (h, self\<lparr>entries := kvs'\<rparr>)))"

text \<open>\<^verbatim>\<open>__sub__\<close>: \<^verbatim>\<open>new = self.__class__(self); new -= other; return new\<close>.\<close>

definition sub_ad ::
  "heap \<Rightarrow> 'k AccumDict \<Rightarrow> 'k operand \<Rightarrow> py_error + (heap \<times> 'k AccumDict)" where
  "sub_ad h self other = isub_ad h (init_ad (entries self) None) other"

text \<open>What a dictionary shows in a heap: its keys with what their values are worth.\<close>

definition dict_view :: "heap \<Rightarrow> ('k \<times> pyval) list \<Rightarrow> ('k \<times> pyobj) list" where
  "dict_view h kvs = map (\<lambda>(k, v). (k, value_of h v)) kvs"

text \<open>
  The subtraction policy in the words of the specification, for one key: \<open>x\<close> is the
  value of the key in \<open>a\<close>, \<open>y\<close> its value in \<open>b\<close> (\<open>None\<close> when the key is absent), and
  \<open>acc\<close> the accumulator template of \<open>a\<close>. A key of both gets \<open>a[k] - b[k]\<close>, a key of
  \<open>a\<close> alone keeps its value, a key of \<open>b\<close> alone gets \<open>b[k]\<close> as it is when there is no
  template, and the template minus \<open>b[k]\<close> when there is one.
\<close>

fun difference :: "pyval \<Rightarrow> pyval \<Rightarrow> pyval option" where
  "difference (IntV x) (IntV y) = Some (IntV (x - y))"
| "difference _ _ = None"

fun sub_policy :: "pyval option \<Rightarrow> pyval option \<Rightarrow> pyval option \<Rightarrow> pyval option" where
  "sub_policy acc (Some x) (Some y) = difference x y"
| "sub_policy acc (Some x) None = Some x"
| "sub_policy None None (Some y) = Some y"
| "sub_policy (Some t) None (Some y) = difference t y"
| "sub_policy acc None None = None"

fun is_int :: "pyval \<Rightarrow> bool" where
  "is_int (IntV i) = True"
| "is_int (ListV r) = False"

definition int_valued :: "('k \<times> pyval) list \<Rightarrow> bool" where
  "int_valued kvs = list_all (\<lambda>(k, v). is_int v) kvs"

section \<open>SourceFilter\<close>

text \<open>
  An exception of \<^verbatim>\<open>filters.py\<close> with its type and its message (\<^verbatim>\<open>str(err)\<close>), which
  \<^verbatim>\<open>context\<close> reads and rewrites.
\<close>

datatype exn = Exn (etype: py_error) (message: string)

text \<open>
  A bounding box \<^verbatim>\<open>(min_lon, min_lat, max_lon, max_lat)\<close>, in degrees. Coordinates and
  distances are real numbers.
\<close>

type_synonym box = "real \<times> real \<times> real \<times> real"

text \<open>
  A site of a site collection: its id and its coordinates. What \<^verbatim>\<open>__call__\<close> yields
  beside a source is a whole collection, or
  \<^verbatim>\<open>FilteredSiteCollection(sids, sites.complete)\<close>.
\<close>

record site =
  sid :: nat
  lon :: real
  lat :: real

datatype sites =
    SiteCollection "site list"
  | FilteredSiteCollection "nat list" "site list"

text \<open>\<^verbatim>\<open>sites.complete\<close> and \<^verbatim>\<open>len(sites)\<close>.\<close>

fun complete_of :: "sites \<Rightarrow> site list" where
  "complete_of (SiteCollection ss) = ss"
| "complete_of (FilteredSiteCollection ids ss) = ss"

fun len_sites :: "sites \<Rightarrow> nat" where
  "len_sites (SiteCollection ss) = length ss"
| "len_sites (FilteredSiteCollection ids ss) = length ids"

text \<open>
  What \<^verbatim>\<open>get_affected_box\<close> passes to \<^verbatim>\<open>src.get_bounding_box\<close>: a distance in km, or,
  when indexing \<^verbatim>\<open>self.integration_distance\<close> raised TypeError, that object itself
  (\<^verbatim>\<open>None\<close> or the policy object).
\<close>

datatype maxdist = Distance real | NoneDistance | PolicyObject

text \<open>
  \<^verbatim>\<open>self.integration_distance\<close>: \<^verbatim>\<open>None\<close>, a number, or an object of
  \<^verbatim>\<open>valid.IntegrationDistance\<close>. That class belongs to another module, so an
  object of it is given by what the filter uses of it: its truth value, its
  \<^verbatim>\<open>__getitem__\<close> (by tectonic region type) and its \<^verbatim>\<open>__call__\<close> (by tectonic region type
  and magnitude).
\<close>

datatype integration_distance =
    NoDistance
  | ScalarDistance real
  | IntegrationDistance bool "string \<Rightarrow> exn + real" "string \<Rightarrow> real \<Rightarrow> exn + real"

fun truthy :: "integration_distance \<Rightarrow> bool" where
  "truthy NoDistance = False"
| "truthy (ScalarDistance d) = (d \<noteq> 0)"
| "truthy (IntegrationDistance t g c) = t"

text \<open>
  A seismic source. The source classes belong to other modules; a source is given by
  the attributes and the results of the methods that the filter
  uses: \<^verbatim>\<open>source_id\<close>, \<^verbatim>\<open>tectonic_region_type\<close>, \<^verbatim>\<open>get_bounding_box(maxdist)\<close>,
  \<^verbatim>\<open>get_min_max_mag()\<close>, \<^verbatim>\<open>filter_sites_by_distance_to_source(maxdist, sites)\<close> (a
  collection, or \<^verbatim>\<open>None\<close> when no site is left), and the attribute \<^verbatim>\<open>nsites\<close> that the
  filter sets.
\<close>

record source =
  source_id :: string
  tectonic_region_type :: string
  get_bounding_box :: "maxdist \<Rightarrow> exn + box"
  get_min_max_mag :: "exn + (real \<times> real)"
  filter_sites_by_distance_to_source :: "real \<Rightarrow> sites \<Rightarrow> exn + sites option"
  nsites :: "nat option"

text \<open>
  The spatial index of the \<^verbatim>\<open>rtree\<close> library, as the entries inserted: an id and a box.
  \<^verbatim>\<open>index.intersection(box)\<close> gives the ids of the entries whose box meets the query
  box, borders included. The library raises TypeError for a query that is \<^verbatim>\<open>None\<close> and
  RTreeError for a query with a minimum above its maximum.
\<close>

type_synonym rtree_index = "(nat \<times> box) list"

fun boxes_intersect :: "box \<Rightarrow> box \<Rightarrow> bool" where
  "boxes_intersect (a1, b1, c1, d1) (a2, b2, c2, d2) =
     (a1 \<le> c2 \<and> a2 \<le> c1 \<and> b1 \<le> d2 \<and> b2 \<le> d1)"

definition none_box_error :: exn where
  "none_box_error = Exn TypeError ''object of type NoneType has no len()''"

definition inverted_box_error :: exn where
  "inverted_box_error = Exn RTreeError ''Coordinates must not have minimums more than maximums''"

fun index_intersection :: "rtree_index \<Rightarrow> box option \<Rightarrow> exn + nat list" where
  "index_intersection idx None = Inl none_box_error"
| "index_intersection idx (Some (a, b, c, d)) =
     (if a \<le> c \<and> b \<le> d
      then Inr (map fst (filter (\<lambda>entry. boxes_intersect (snd entry) (a, b, c, d)) idx))
      else Inl inverted_box_error)"

text \<open>
  The state of a \<^verbatim>\<open>SourceFilter\<close>. \<^verbatim>\<open>self.idl\<close> and \<^verbatim>\<open>self.index\<close> exist only when
  \<^verbatim>\<open>use_rtree\<close> holds: \<open>idl\<close> is \<open>None\<close> for the missing attribute.
\<close>

record SourceFilter =
  integration_distance_of :: integration_distance
  sitecol :: "site list option"
  use_rtree :: bool
  idl :: "bool option"
  index :: rtree_index

text \<open>
  \<^verbatim>\<open>__init__(self, sitecol, integration_distance, use_rtree=True)\<close>. \<open>rtree\<close> tells
  whether the \<^verbatim>\<open>rtree\<close> module could be imported. \<^verbatim>\<open>fix_lons_idl\<close> belongs to
  \<^verbatim>\<open>hazardlib.geo.utils\<close> and is a parameter: from the longitudes of the sites it
  gives the longitudes to index and the \<^verbatim>\<open>idl\<close> flag. Each site is inserted as the box
  \<^verbatim>\<open>(lon, lat, lon, lat)\<close>.
\<close>

definition init_filter ::
  "(real list \<Rightarrow> real list \<times> bool) \<Rightarrow> bool \<Rightarrow>
   site list option \<Rightarrow> integration_distance \<Rightarrow> bool \<Rightarrow> SourceFilter" where
  "init_filter fix_lons_idl rtree sc idist use =
     (case sc of
        Some ss \<Rightarrow>
          (if use \<and> rtree \<and> truthy idist
           then (case fix_lons_idl (map lon ss) of (fixed_lons, flag) \<Rightarrow>
                   \<lparr>integration_distance_of = idist, sitecol = sc, use_rtree = True,
                    idl = Some flag,
                    index = map (\<lambda>(i, x, y). (i, (x, y, x, y)))
                              (zip (map sid ss) (zip fixed_lons (map lat ss)))\<rparr>)
           else \<lparr>integration_distance_of = idist, sitecol = sc, use_rtree = False,
                 idl = None, index = []\<rparr>)
      | None \<Rightarrow> \<lparr>integration_distance_of = idist, sitecol = sc, use_rtree = False,
                 idl = None, index = []\<rparr>)"

text \<open>
  The first lines of \<^verbatim>\<open>get_affected_box\<close>:
  \<^verbatim>\<open>try: maxdist = self.integration_distance[src.tectonic_region_type]\<close>,
  \<^verbatim>\<open>except TypeError: maxdist = self.integration_distance\<close>. \<^verbatim>\<open>None\<close> and a number cannot
  be indexed and raise the TypeError themselves.
\<close>

fun box_maxdist :: "integration_distance \<Rightarrow> string \<Rightarrow> exn + maxdist" where
  "box_maxdist NoDistance trt = Inr NoneDistance"
| "box_maxdist (ScalarDistance d) trt = Inr (Distance d)"
| "box_maxdist (IntegrationDistance t getitem call) trt =
     (case getitem trt of
        Inr d \<Rightarrow> Inr (Distance d)
      | Inl e \<Rightarrow> (if etype e = TypeError then Inr PolicyObject else Inl e))"

definition no_idl_error :: exn where
  "no_idl_error = Exn AttributeError ''SourceFilter object has no attribute idl''"

text \<open>
  The four cases of the \<^verbatim>\<open>if self.idl\<close> branch. Each compares both longitudes with 0
  strictly, and no \<^verbatim>\<open>else\<close> follows them: when none applies the method ends without a
  \<^verbatim>\<open>return\<close>, and the caller gets \<^verbatim>\<open>None\<close>.
\<close>

definition idl_fix :: "box \<Rightarrow> box option" where
  "idl_fix b =
     (case b of (min_lon, min_lat, max_lon, max_lat) \<Rightarrow>
        if min_lon < 0 \<and> max_lon > 0 then Some (max_lon, min_lat, min_lon + 360, max_lat)
        else if min_lon < 0 \<and> max_lon < 0 then Some (min_lon + 360, min_lat, max_lon + 360, max_lat)
        else if min_lon > 0 \<and> max_lon > 0 then Some (min_lon, min_lat, max_lon, max_lat)
        else if min_lon > 0 \<and> max_lon < 0 then Some (max_lon + 360, min_lat, min_lon, max_lat)
        else None)"

definition get_affected_box :: "SourceFilter \<Rightarrow> source \<Rightarrow> exn + box option" where
  "get_affected_box self src =
     (case box_maxdist (integration_distance_of self) (tectonic_region_type src) of
        Inl e \<Rightarrow> Inl e
      | Inr maxdist \<Rightarrow>
          (case get_bounding_box src maxdist of
             Inl e \<Rightarrow> Inl e
           | Inr b \<Rightarrow>
               (case idl self of
                  None \<Rightarrow> Inl no_idl_error
                | Some True \<Rightarrow> Inr (idl_fix b)
                | Some False \<Rightarrow> Inr (Some b))))"

text \<open>
  Modelled from the spec: \<^verbatim>\<open>raise_\<close> of \<^verbatim>\<open>baselib.python3compat\<close>, a module that is
  missing here. \<^verbatim>\<open>raise_(etype, msg, tb)\<close> raises an exception of the type \<^verbatim>\<open>etype\<close>
  with the message \<^verbatim>\<open>msg\<close> ("preserving the original failure type but enriching the
  message").
\<close>

definition raise_exc :: "py_error \<Rightarrow> string \<Rightarrow> exn" where
  "raise_exc tp msg = Exn tp msg"

text \<open>
  \<^verbatim>\<open>context(src)\<close> around a block: an exception of the block is caught and raised
  again through \<^verbatim>\<open>raise_\<close> with the message
  \<^verbatim>\<open>'An error occurred with source id=%s. Error: %s' % (src.source_id, err)\<close>.
\<close>

definition context_message :: "source \<Rightarrow> exn \<Rightarrow> string" where
  "context_message src err =
     ''An error occurred with source id='' @ source_id src @ ''. Error: '' @ message err"

definition with_context :: "source \<Rightarrow> exn + 'a \<Rightarrow> exn + 'a" where
  "with_context src block =
     (case block of
        Inl err \<Rightarrow> Inl (raise_exc (etype err) (context_message src err))
      | Inr v \<Rightarrow> Inr v)"

text \<open>
  \<^verbatim>\<open>self.integration_distance(trt, max_mag)\<close> in the distance mode: \<^verbatim>\<open>None\<close> never
  gets there, and a number is not callable.
\<close>

definition not_callable_error :: exn where
  "not_callable_error = Exn TypeError ''float object is not callable''"

fun call_distance :: "integration_distance \<Rightarrow> string \<Rightarrow> real \<Rightarrow> exn + real" where
  "call_distance (IntegrationDistance t getitem call) trt mag = call trt mag"
| "call_distance _ trt mag = Inl not_callable_error"

text \<open>
  The body of the \<^verbatim>\<open>for src in sources\<close> loop of \<^verbatim>\<open>__call__\<close>: an exception, nothing
  (the source is dropped), or the pair that is yielded.
\<close>

definition rtree_filtering :: "SourceFilter \<Rightarrow> sites \<Rightarrow> source \<Rightarrow> exn + (source \<times> sites) option" where
  "rtree_filtering self ss src =
     (case get_affected_box self src of
        Inl e \<Rightarrow> Inl e
      | Inr b \<Rightarrow>
          (case index_intersection (index self) b of
             Inl e \<Rightarrow> Inl e
           | Inr ids \<Rightarrow>
               (let sids = sort ids in
                if length sids \<noteq> 0
                then Inr (Some (src\<lparr>nsites := Some (length sids)\<rparr>,
                                FilteredSiteCollection sids (complete_of ss)))
                else Inr None)))"

definition normal_filtering :: "SourceFilter \<Rightarrow> sites \<Rightarrow> source \<Rightarrow> exn + (source \<times> sites) option" where
  "normal_filtering self ss src =
     (case get_min_max_mag src of
        Inl e \<Rightarrow> Inl e
      | Inr (min_mag, max_mag) \<Rightarrow>
          (case call_distance (integration_distance_of self) (tectonic_region_type src) max_mag of
             Inl e \<Rightarrow> Inl e
           | Inr d \<Rightarrow>
               (case with_context src (filter_sites_by_distance_to_source src d ss) of
                  Inl e \<Rightarrow> Inl e
                | Inr None \<Rightarrow> Inr None
                | Inr (Some s_sites) \<Rightarrow>
                    Inr (Some (src\<lparr>nsites := Some (len_sites s_sites)\<rparr>, s_sites)))))"

definition filter_source :: "SourceFilter \<Rightarrow> sites \<Rightarrow> source \<Rightarrow> exn + (source \<times> sites) option" where
  "filter_source self ss src =
     (if use_rtree self then rtree_filtering self ss src
      else if \<not> truthy (integration_distance_of self) then Inr (Some (src, ss))
      else normal_filtering self ss src)"

text \<open>
  A generator of \<^verbatim>\<open>filters.py\<close> that is run to its end: what it yielded, and the
  exception that ended it, if one did.
\<close>

type_synonym 'c filtered = "'c list \<times> exn option"

fun filter_loop :: "SourceFilter \<Rightarrow> sites \<Rightarrow> source list \<Rightarrow> (source \<times> sites) filtered" where
  "filter_loop self ss [] = ([], None)"
| "filter_loop self ss (src # sources) =
     (case filter_source self ss src of
        Inl e \<Rightarrow> ([], Some e)
      | Inr None \<Rightarrow> filter_loop self ss sources
      | Inr (Some pair) \<Rightarrow>
          (case filter_loop self ss sources of (rest, e) \<Rightarrow> (pair # rest, e)))"

text \<open>
  \<^verbatim>\<open>__call__(self, sources, sites=None)\<close>: \<^verbatim>\<open>sites\<close> defaults to \<^verbatim>\<open>self.sitecol\<close>.
  Without a site collection every source is yielded with \<^verbatim>\<open>sites\<close> as it came
  (\<open>None\<close> for \<^verbatim>\<open>None\<close>).
\<close>

definition call_filter ::
  "SourceFilter \<Rightarrow> source list \<Rightarrow> sites option \<Rightarrow> (source \<times> sites option) filtered" where
  "call_filter self sources sites_arg =
     (case sitecol self of
        None \<Rightarrow> (map (\<lambda>src. (src, sites_arg)) sources, None)
      | Some sc \<Rightarrow>
          (let ss = (case sites_arg of None \<Rightarrow> SiteCollection sc | Some s \<Rightarrow> s)
           in case filter_loop self ss sources of
                (pairs, e) \<Rightarrow> (map (\<lambda>(src, s). (src, Some s)) pairs, e)))"



text \<open>
  Data for the examples. A site collection of one site at 0.8 degrees east and north, an
  integration distance of 100 km for every tectonic region type and magnitude, and a
  collection that does not cross the date line, whose longitudes are indexed as they
  are.
\<close>

definition one_site :: "site list" where
  "one_site = [\<lparr>sid = 0, lon = 8 / 10, lat = 8 / 10\<rparr>]"

definition hundred_km :: integration_distance where
  "hundred_km = IntegrationDistance True (\<lambda>trt. Inr 100) (\<lambda>trt mag. Inr 100)"

definition keep_lons :: "real list \<Rightarrow> real list \<times> bool" where
  "keep_lons lons = (lons, False)"

definition indexed_filter :: SourceFilter where
  "indexed_filter = init_filter keep_lons True (Some one_site) hundred_km True"

definition distance_filter :: SourceFilter where
  "distance_filter = init_filter keep_lons True (Some one_site) hundred_km False"





text \<open>
  A site collection on both sides of the date line, whose longitudes are indexed in
  0..360 with the \<^verbatim>\<open>idl\<close> flag set, and a source whose box for 100 km starts exactly on
  the Greenwich meridian.
\<close>

definition dateline_sites :: "site list" where
  "dateline_sites = [\<lparr>sid = 0, lon = 179, lat = 0\<rparr>, \<lparr>sid = 1, lon = - 179, lat = 0\<rparr>]"

definition shift_lons :: "real list \<Rightarrow> real list \<times> bool" where
  "shift_lons lons = (map (\<lambda>x. if x < 0 then x + 360 else x) lons, True)"

definition dateline_filter :: SourceFilter where
  "dateline_filter = init_filter shift_lons True (Some dateline_sites) hundred_km True"

definition meridian_source :: source where
  "meridian_source =
     \<lparr>source_id = ''M'', tectonic_region_type = ''Active Shallow Crust'',
      get_bounding_box = (\<lambda>maxdist. Inr (0, - 1, 2, 1)),
      get_min_max_mag = Inr (5, 6),
      filter_sites_by_distance_to_source = (\<lambda>maxdist ss. Inr None),
      nsites = None\<rparr>"



section \<open>Properties of WeightedSequence\<close>












lemma zip_prefix_all_eq:
  "list_all (\<lambda>(x, y). x = y) (zip xs (xs @ zs))"
  "list_all (\<lambda>(x, y). x = y) (zip (xs @ zs) xs)"
  by (induction xs) simp_all

text \<open>
  Claim C9: \<^verbatim>\<open>WeightedSequence.__eq__\<close> compares neither lengths nor weights. Whenever
  the items of one operand are a prefix of the items of the other (the empty sequence is
  a prefix of every sequence), \<^verbatim>\<open>__eq__\<close> returns True.
\<close>

theorem eq_ws_prefix:
  "prefix (seq a) (seq b) \<or> prefix (seq b) (seq a) \<Longrightarrow> eq_ws a b"
  by (auto simp: eq_ws_def prefix_def zip_prefix_all_eq)

theorem eq_ws_prefix_witness:
  "(prefix (seq \<lparr>seq = [] :: string list, weight = 0 :: int\<rparr>) (seq \<lparr>seq = [''A'', ''B''], weight = 5 :: int\<rparr>)
    \<or> prefix (seq \<lparr>seq = [''A'', ''B''], weight = 5 :: int\<rparr>) (seq \<lparr>seq = [] :: string list, weight = 0 :: int\<rparr>))
   \<and> eq_ws \<lparr>seq = [] :: string list, weight = 0 :: int\<rparr> \<lparr>seq = [''A'', ''B''], weight = 5\<rparr>"
  using eq_ws_prefix [of "\<lparr>seq = [] :: string list, weight = 0 :: int\<rparr>" "\<lparr>seq = [''A'', ''B''], weight = 5\<rparr>"]
  by simp

section \<open>Properties of block_splitter\<close>








section \<open>Properties of split_in_slices\<close>

lemmas float_defs = true_div_def round_to_double_def float_exponent_def
  bit_length.simps scaled_def round_half_even_def Let_def math_ceil_def

lemma true_div_examples:
  "true_div 5 2 = Inr \<lparr>mantissa = 5 * 2 ^ 50, exponent = - 51\<rparr>"
  "true_div (2 ^ 53 + 1) 1 = Inr \<lparr>mantissa = 2 ^ 52, exponent = 1\<rparr>"
  by (simp_all add: float_defs)

lemma double_value_rounded: "double_value \<lparr>mantissa = 2 ^ 52, exponent = 1\<rparr> = 2 ^ 53"
  by (simp add: double_value_def)

lemma split_in_slices_examples:
  "split_in_slices 4 2 = Some (Inr [Slice 0 2, Slice 2 4])"
  "split_in_slices 5 1 = Some (Inr [Slice 0 5])"
  "split_in_slices 5 2 = Some (Inr [Slice 0 3, Slice 3 5])"
  "split_in_slices 2 4 = Some (Inr [Slice 0 1, Slice 1 2])"
  by (simp_all add: split_in_slices_def float_defs slices_loop.simps)

text \<open>
  For a positive block size the loop ends, and the slices it adds are contiguous from
  \<open>start\<close> to \<open>number\<close>.
\<close>

lemma slices_loop_returns:
  assumes "0 < b" and "start < n"
  shows "\<exists>out. slices_loop b n start acc = Some (acc @ out) \<and> contiguous start out n
               \<and> int (length out) = (n - start + b - 1) div b"
  using assms(2)
proof (induction "nat (n - start)" arbitrary: start acc rule: less_induct)
  case less
  show ?case
  proof (cases "n \<le> start + b")
    case True
    with less.prems have one: "(n - start + b - 1) div b = 1"
      using assms(1) by (intro int_div_pos_eq [where r = "n - start - 1"]) auto
    from True have "slices_loop b n start acc = Some (acc @ [Slice start n])"
      by (subst slices_loop.simps) (simp add: Let_def min_def)
    with less.prems one show ?thesis by simp
  next
    case False
    then have far: "start + b < n" by simp
    with assms(1) have "nat (n - (start + b)) < nat (n - start)" by simp
    from less.hyps [OF this far, of "acc @ [Slice start (start + b)]"]
    obtain out where run: "slices_loop b n (start + b) (acc @ [Slice start (start + b)])
                            = Some ((acc @ [Slice start (start + b)]) @ out)"
      and chain: "contiguous (start + b) out n"
      and len: "int (length out) = (n - (start + b) + b - 1) div b"
      by blast
    have "(n - start + b - 1) div b = (n - (start + b) + b - 1) div b + 1"
      using assms(1) div_add_self2 [of b "n - (start + b) + b - 1"] by (simp add: algebra_simps)
    with len have len': "int (length (Slice start (start + b) # out)) = (n - start + b - 1) div b"
      by simp
    from far have "slices_loop b n start acc = slices_loop b n (start + b) (acc @ [Slice start (start + b)])"
      by (subst slices_loop.simps) (simp add: Let_def min_def)
    with run have "slices_loop b n start acc = Some (acc @ (Slice start (start + b) # out))"
      by simp
    moreover have "contiguous start (Slice start (start + b) # out) n"
      using chain assms(1) by simp
    ultimately show ?thesis using len' by blast
  qed
qed

lemma ceiling_div_bounds:
  assumes "0 < n" and "0 < (k::int)"
  shows "0 < (n + k - 1) div k" and "(n + (n + k - 1) div k - 1) div ((n + k - 1) div k) \<le> k"
proof -
  let ?b = "(n + k - 1) div k"
  show pos: "0 < ?b"
    using assms by (simp add: pos_imp_zdiv_pos_iff)
  have "n + k - 1 = ?b * k + (n + k - 1) mod k" by simp
  moreover have "(n + k - 1) mod k < k" using assms(2) by simp
  ultimately have "n \<le> ?b * k" by linarith
  then have "n + ?b - 1 < (k + 1) * ?b" using pos by (simp add: algebra_simps)
  moreover have "(n + ?b - 1) div ?b * ?b \<le> n + ?b - 1"
    using pos div_mult_mod_eq [of "n + ?b - 1" ?b] pos_mod_sign [OF pos, of "n + ?b - 1"]
    by linarith
  ultimately have "(n + ?b - 1) div ?b * ?b < (k + 1) * ?b"
    by linarith
  with pos have "(n + ?b - 1) div ?b < k + 1"
    by (simp only: mult_less_cancel_right_pos)
  then show "(n + ?b - 1) div ?b \<le> k" by simp
qed

text \<open>
  The float division is exact enough below \<open>2 ^ 53\<close>: for positive \<open>a\<close> and \<open>b\<close> below
  \<open>2 ^ 53\<close>, \<^verbatim>\<open>int(math.ceil(a / b))\<close> is the ceiling of the exact quotient.
\<close>

lemma bit_length_bounds: "0 < n \<Longrightarrow> n < 2 ^ bit_length n \<and> 2 ^ bit_length n \<le> 2 * n"
proof (induction n rule: bit_length.induct)
  case (1 n)
  have bl: "bit_length n = Suc (bit_length (n div 2))"
    using "1.prems" by (subst bit_length.simps) simp
  show ?case
  proof (cases "n = 1")
    case True
    then show ?thesis by (simp add: bit_length.simps)
  next
    case False
    with "1.prems" have half: "0 < n div 2" by (simp add: pos_imp_zdiv_pos_iff)
    from "1.prems" have "\<not> n \<le> 0" by simp
    from "1.IH" [OF this half]
    have IH: "n div 2 < 2 ^ bit_length (n div 2)" "2 ^ bit_length (n div 2) \<le> 2 * (n div 2)"
      by simp_all
    have "n \<le> 2 * (n div 2) + 1" by linarith
    with IH(1) have "n < 2 * 2 ^ bit_length (n div 2)" by linarith
    moreover have "2 * (n div 2) \<le> n" by linarith
    with IH(2) have "2 * 2 ^ bit_length (n div 2) \<le> 2 * n" by linarith
    ultimately show ?thesis by (simp add: bl)
  qed
qed

lemma scaled_ratio:
  assumes "0 < b" and "scaled a b s = (n, m)"
  shows "0 < m \<and> (of_int n / of_int m :: rat) = of_int a / of_int b * power_int 2 s"
proof (cases "0 \<le> s")
  case True
  with assms show ?thesis
    by (auto simp: scaled_def power_int_def)
next
  case False
  with assms show ?thesis
    by (auto simp: scaled_def power_int_def power_inverse field_simps)
qed

lemma one_le_times_power_int_minus:
  "1 \<le> x * power_int (2 :: rat) (- d) \<longleftrightarrow> power_int 2 d \<le> x"
proof -
  have "0 < power_int (2 :: rat) d" by simp
  then show ?thesis
    by (simp add: power_int_minus field_simps)
qed

lemma float_exponent_spec:
  assumes "0 < a" and "0 < b"
  shows "power_int 2 (float_exponent a b) \<le> (of_int a / of_int b :: rat)
         \<and> (of_int a / of_int b :: rat) < power_int 2 (float_exponent a b + 1)"
proof -
  let ?q = "of_int a / of_int b :: rat"
  let ?la = "bit_length a" and ?lb = "bit_length b"
  let ?d = "int ?la - int ?lb"
  note ba = bit_length_bounds [OF assms(1)] and bb = bit_length_bounds [OF assms(2)]
  have A: "(of_int a :: rat) < 2 ^ ?la" "(2 :: rat) ^ ?la \<le> 2 * of_int a"
    using ba by (metis of_int_less_iff of_int_numeral of_int_power, metis of_int_le_iff of_int_mult of_int_numeral of_int_power)
  have B: "(of_int b :: rat) < 2 ^ ?lb" "(2 :: rat) ^ ?lb \<le> 2 * of_int b"
    using bb by (metis of_int_less_iff of_int_numeral of_int_power, metis of_int_le_iff of_int_mult of_int_numeral of_int_power)
  have pd: "power_int (2 :: rat) ?d = 2 ^ ?la / 2 ^ ?lb"
    by (simp add: power_int_diff)
  have posb: "(0 :: rat) < of_int b" and posa: "(0 :: rat) < of_int a"
    using assms by simp_all
  have lo: "power_int 2 (?d - 1) < ?q"
  proof -
    have "power_int (2 :: rat) (?d - 1) = 2 ^ ?la / (2 * 2 ^ ?lb)"
      by (simp add: power_int_diff pd)
    also have "\<dots> < ?q"
    proof -
      have "(2 :: rat) ^ ?la * of_int b < 2 * of_int a * 2 ^ ?lb"
      proof -
        have "(2 :: rat) ^ ?la * of_int b < 2 ^ ?la * 2 ^ ?lb"
          using B(1) by simp
        also have "\<dots> \<le> 2 * of_int a * 2 ^ ?lb"
          using A(2) by simp
        finally show ?thesis .
      qed
      with posb show ?thesis
        by (simp add: field_simps)
    qed
    finally show ?thesis .
  qed
  have hi: "?q < power_int 2 (?d + 1)"
  proof -
    have "of_int a * (2 :: rat) ^ ?lb < 2 ^ ?la * (2 * of_int b)"
    proof -
      have "of_int a * (2 :: rat) ^ ?lb \<le> of_int a * (2 * of_int b)"
        using B(2) posa by simp
      also have "\<dots> < 2 ^ ?la * (2 * of_int b)"
        using A(1) posb by simp
      finally show ?thesis .
    qed
    with posb have "?q < 2 * (2 ^ ?la / 2 ^ ?lb)"
      by (simp add: field_simps)
    also have "\<dots> = power_int 2 (?d + 1)"
      by (simp add: power_int_add pd)
    finally show ?thesis .
  qed
  obtain n m where sc: "scaled a b (- ?d) = (n, m)"
    by (cases "scaled a b (- ?d)")
  from scaled_ratio [OF assms(2) sc]
  have m: "0 < m" and ratio: "(of_int n / of_int m :: rat) = ?q * power_int 2 (- ?d)"
    by simp_all
  have test: "m \<le> n \<longleftrightarrow> power_int 2 ?d \<le> ?q"
  proof -
    have "m \<le> n \<longleftrightarrow> (1 :: rat) \<le> of_int n / of_int m"
      using m by (simp add: field_simps)
    also have "\<dots> \<longleftrightarrow> power_int 2 ?d \<le> ?q"
      unfolding ratio by (rule one_le_times_power_int_minus)
    finally show ?thesis .
  qed
  show ?thesis
  proof (cases "m \<le> n")
    case True
    with sc have "float_exponent a b = ?d"
      by (simp add: float_exponent_def Let_def)
    with True test hi show ?thesis by simp
  next
    case False
    with sc have "float_exponent a b = ?d - 1"
      by (simp add: float_exponent_def Let_def)
    with False test lo show ?thesis by simp
  qed
qed

lemma round_half_even_upper:
  assumes "0 < d" and "n \<le> M * d"
  shows "round_half_even (n, d) \<le> M"
proof -
  define q0 r where "q0 = n div d" and "r = n mod d"
  have n: "n = q0 * d + r" and r: "0 \<le> r" "r < d"
    using assms(1) by (simp_all add: q0_def r_def)
  have le: "q0 \<le> M"
  proof (rule ccontr)
    assume "\<not> q0 \<le> M"
    then have "(M + 1) * d \<le> q0 * d"
      using assms(1) by (intro mult_right_mono) auto
    with n r assms show False by (simp add: algebra_simps)
  qed
  show ?thesis
  proof (cases "q0 = M")
    case True
    with n r assms(2) have "r = 0" by simp
    with True assms(1) show ?thesis
      by (simp add: round_half_even_def Let_def q0_def r_def)
  next
    case False
    with le have "q0 + 1 \<le> M" by simp
    then show ?thesis
      by (simp add: round_half_even_def Let_def q0_def)
  qed
qed

lemma round_half_even_lower:
  assumes "0 < d" and "L * d + h \<le> n" and "d < 2 * h"
  shows "L < round_half_even (n, d)"
proof -
  define q0 r where "q0 = n div d" and "r = n mod d"
  have n: "n = q0 * d + r" and r: "0 \<le> r" "r < d"
    using assms(1) by (simp_all add: q0_def r_def)
  have ge: "L \<le> q0"
  proof (rule ccontr)
    assume "\<not> L \<le> q0"
    then have "(q0 + 1) * d \<le> L * d"
      using assms(1) by (intro mult_right_mono) auto
    with n r assms show False by (simp add: algebra_simps)
  qed
  show ?thesis
  proof (cases "q0 = L")
    case True
    with n assms(2) have "h \<le> r" by simp
    with assms(3) have "d < 2 * r" by simp
    with True show ?thesis
      by (simp add: round_half_even_def Let_def q0_def r_def)
  next
    case False
    with ge have "L < q0" by simp
    then show ?thesis
      by (simp add: round_half_even_def Let_def q0_def)
  qed
qed

lemma ceiling_div_times:
  assumes "0 < a" and "0 < (b::int)"
  shows "a \<le> (a + b - 1) div b * b" and "((a + b - 1) div b - 1) * b + 1 \<le> a"
proof -
  define c r where "c = (a + b - 1) div b" and "r = (a + b - 1) mod b"
  have eq: "a + b - 1 = c * b + r"
    by (simp add: c_def r_def)
  have r: "0 \<le> r" "r < b"
    using assms(2) by (simp_all add: r_def)
  have expand: "(c - 1) * b = c * b - b"
    by (simp add: algebra_simps)
  from eq r show "a \<le> (a + b - 1) div b * b"
    unfolding c_def [symmetric] by linarith
  from eq r expand show "((a + b - 1) div b - 1) * b + 1 \<le> a"
    unfolding c_def [symmetric] by linarith
qed

lemma true_div_exact_ceiling:
  assumes "0 < a" and "a < 2 ^ 53" and "0 < b" and "b < 2 ^ 53"
  shows "\<exists>q. true_div a b = Inr q \<and> math_ceil q = (a + b - 1) div b"
proof -
  let ?q = "of_int a / of_int b :: rat"
  let ?e = "float_exponent a b"
  let ?c = "(a + b - 1) div b"
  note spec = float_exponent_spec [OF assms(1,3)]
  have posa: "(0 :: rat) < of_int a" and posb: "(0 :: rat) < of_int b"
    using assms by simp_all
  have ra: "(of_int a :: rat) < 2 ^ 53" "(1 :: rat) \<le> of_int a"
    using assms(1,2) by (metis of_int_less_iff of_int_numeral of_int_power, simp)
  have rb: "(of_int b :: rat) < 2 ^ 53" "(1 :: rat) \<le> of_int b"
    using assms(3,4) by (metis of_int_less_iff of_int_numeral of_int_power, simp)
  have q_hi: "?q < 2 ^ 53"
  proof -
    have "?q \<le> of_int a" using rb(2) posa by (simp add: field_simps)
    with ra(1) show ?thesis by simp
  qed
  have q_lo: "1 / 2 ^ 53 < ?q"
    using ra(2) rb(1) posb by (simp add: field_simps)
  have e_hi: "?e \<le> 52"
  proof (rule ccontr)
    assume "\<not> ?e \<le> 52"
    then have "power_int (2 :: rat) 53 \<le> power_int 2 ?e"
      by (intro power_int_increasing) auto
    with spec q_hi show False by simp
  qed
  have e_lo: "- 53 \<le> ?e"
  proof (rule ccontr)
    assume "\<not> - 53 \<le> ?e"
    then have "power_int (2 :: rat) (?e + 1) \<le> power_int 2 (- 53)"
      by (intro power_int_increasing) auto
    with spec have "?q < power_int 2 (- 53)"
      by (meson less_le_trans)
    also have "power_int (2 :: rat) (- 53) = 1 / 2 ^ 53"
      by (simp add: power_int_minus_divide)
    finally have "?q < 1 / 2 ^ 53" .
    with q_lo show False by (rule order.asym)
  qed
  define S where "S = nat (52 - ?e)"
  define h :: int where "h = 2 ^ S"
  have s: "52 - ?e = int S" using e_hi by (simp add: S_def)
  have hpos: "0 < h" by (simp add: h_def)
  have e_eq: "power_int (2 :: rat) ?e = 2 ^ 52 / 2 ^ S"
  proof -
    have "?e = 52 - int S" using s by simp
    then have "power_int (2 :: rat) ?e = power_int 2 (52 - int S)" by simp
    also have "\<dots> = 2 ^ 52 / 2 ^ S" by (simp add: power_int_diff)
    finally show ?thesis .
  qed
  have b_lt: "b < 2 * h"
  proof -
    from spec have "power_int 2 ?e * of_int b \<le> (of_int a :: rat)"
      using posb by (simp add: field_simps)
    with ra(1) have "2 ^ 52 / 2 ^ S * of_int b < (2 :: rat) ^ 53"
      unfolding e_eq by simp
    then have "(of_int b :: rat) < 2 * 2 ^ S"
      by (simp add: field_simps)
    then have "(of_int b :: rat) < of_int (2 * h)"
      by (simp add: h_def)
    then show ?thesis by (simp only: of_int_less_iff)
  qed
  define m where "m = round_half_even (a * h, b)"
  note cb = ceiling_div_times [OF assms(1,3)]
  have upper: "m \<le> ?c * h"
  proof -
    from cb(1) hpos have "a * h \<le> ?c * b * h" by (intro mult_right_mono) auto
    then have "a * h \<le> ?c * h * b" by (simp add: algebra_simps)
    then show ?thesis unfolding m_def by (rule round_half_even_upper [OF assms(3)])
  qed
  have lower: "(?c - 1) * h < m"
  proof -
    from cb(2) hpos have "((?c - 1) * b + 1) * h \<le> a * h" by (intro mult_right_mono) auto
    then have "(?c - 1) * h * b + h \<le> a * h" by (simp add: algebra_simps)
    then show ?thesis unfolding m_def by (rule round_half_even_lower [OF assms(3) _ b_lt])
  qed
  have rounded: "round_to_double a b = \<lparr>mantissa = m, exponent = - int S\<rparr>"
    using e_lo s by (simp add: round_to_double_def Let_def scaled_def m_def h_def max_def)
  have div: "true_div a b = Inr \<lparr>mantissa = m, exponent = - int S\<rparr>"
    using assms(1,3) rounded by (simp add: true_div_def Let_def)
  have "math_ceil \<lparr>mantissa = m, exponent = - int S\<rparr> = ?c"
  proof (cases "S = 0")
    case True
    with upper lower show ?thesis by (simp add: math_ceil_def h_def)
  next
    case False
    have "(- m) div h = - ?c"
    proof (rule int_div_pos_eq [where r = "?c * h - m"])
      show "- m = h * - ?c + (?c * h - m)" by (simp add: algebra_simps)
      show "0 \<le> ?c * h - m" using upper by simp
      show "?c * h - m < h" using lower by (simp add: algebra_simps)
    qed
    with False show ?thesis by (simp add: math_ceil_def h_def)
  qed
  with div show ?thesis by simp
qed

text \<open>
  Whenever the float division gives the exact ceiling of \<open>number / num_slices\<close>, the
  slices are as the specification asks: contiguous from 0 to \<open>number\<close> and at most
  \<open>num_slices\<close>.
\<close>

lemma split_in_slices_exact_ceiling:
  assumes "0 < n" and "0 < k" and "true_div n k = Inr q" and "math_ceil q = (n + k - 1) div k"
  shows "\<exists>out. split_in_slices n k = Some (Inr out) \<and> contiguous 0 out n \<and> int (length out) \<le> k"
proof -
  note bounds = ceiling_div_bounds [OF assms(1,2)]
  from slices_loop_returns [OF bounds(1) assms(1), of "[]"] obtain out
    where "slices_loop ((n + k - 1) div k) n 0 [] = Some out" and "contiguous 0 out n"
      and "int (length out) = (n + (n + k - 1) div k - 1) div ((n + k - 1) div k)"
    by auto
  with assms bounds(2) show ?thesis
    by (simp add: split_in_slices_def)
qed

text \<open>
  Below \<open>2 ^ 53\<close> the function does what the specification says: it returns, with
  contiguous slices from 0 to \<open>number\<close>, at most \<open>num_slices\<close> of them.
\<close>

lemma split_in_slices_below_2_53:
  assumes "0 < n" and "n < 2 ^ 53" and "0 < k" and "k < 2 ^ 53"
  shows "\<exists>out. split_in_slices n k = Some (Inr out) \<and> contiguous 0 out n \<and> int (length out) \<le> k"
proof -
  from true_div_exact_ceiling [OF assms] obtain q
    where "true_div n k = Inr q" and "math_ceil q = (n + k - 1) div k"
    by blast
  then show ?thesis
    by (rule split_in_slices_exact_ceiling [OF assms(1,3)])
qed

text \<open>
  Claim C7 fails on the code for large numbers: \<^verbatim>\<open>number / num_slices\<close> is a float
  division, and \<^verbatim>\<open>(2**53 + 1) / 1\<close> rounds to \<^verbatim>\<open>2.0**53\<close>. The block size is then
  \<open>2 ^ 53\<close>, one less than the number, and \<^verbatim>\<open>split_in_slices(2**53 + 1, 1)\<close> returns two
  slices where at most one was asked for.
\<close>

theorem split_in_slices_float_rounding:
  "split_in_slices (2 ^ 53 + 1) 1 = Some (Inr [Slice 0 (2 ^ 53), Slice (2 ^ 53) (2 ^ 53 + 1)])"
  by (simp add: split_in_slices_def float_defs slices_loop.simps)

section \<open>Properties of AccumDict\<close>

lemma map_of_dict_set:
  "map_of (dict_set k v kvs) k' = (if k' = k then Some v else map_of kvs k')"
  by (induction kvs) auto

lemma keys_dict_set:
  "set (map fst (dict_set k v kvs)) = insert k (set (map fst kvs))"
  by (induction kvs) auto

lemma distinct_dict_set:
  "distinct (map fst kvs) \<Longrightarrow> distinct (map fst (dict_set k v kvs))"
proof (induction kvs)
  case Nil
  then show ?case by simp
next
  case (Cons p ps)
  have "fst ` set (dict_set k v ps) = insert k (fst ` set ps)"
    using keys_dict_set [of k v ps] by simp
  with Cons show ?case by auto
qed

lemma map_of_dict_update:
  "distinct (map fst dic) \<Longrightarrow>
   map_of (dict_update dic d) k = (case map_of dic k of None \<Rightarrow> map_of d k | Some v \<Rightarrow> Some v)"
proof (induction dic arbitrary: d)
  case Nil
  then show ?case by (simp add: dict_update_def)
next
  case (Cons p ps)
  obtain k0 v0 where p: "p = (k0, v0)" by (cases p)
  from Cons.prems p have notin: "map_of ps k0 = None" and dist: "distinct (map fst ps)"
    by (auto simp: map_of_eq_None_iff)
  have "dict_update (p # ps) d = dict_update ps (dict_set k0 v0 d)"
    by (simp add: dict_update_def p)
  with Cons.IH [OF dist, of "dict_set k0 v0 d"] notin show ?case
    by (auto simp: p map_of_dict_set split: option.splits)
qed

lemma map_of_init_ad:
  "distinct (map fst dic) \<Longrightarrow> map_of (entries (init_ad dic acc)) k = map_of dic k"
  by (simp add: init_ad_def map_of_dict_update split: option.splits)

lemma py_sub_difference:
  "py_sub x y = Inr r \<Longrightarrow> difference x y = Some r"
  by (cases x; cases y) auto

lemma py_sub_not_KeyError: "py_sub x y \<noteq> Inl KeyError"
  by (cases x; cases y) auto

lemma isub_items_policy:
  assumes "distinct (map fst kvs)" and "isub_items kvs h d = Inr (h', d')"
  shows "h' = h \<and> accum d' = accum d \<and>
         map_of (entries d') k
           = (case map_of kvs k of
                None \<Rightarrow> map_of (entries d) k
              | Some y \<Rightarrow> sub_policy (accum d) (map_of (entries d) k) (Some y))"
  using assms
proof (induction kvs arbitrary: d)
  case Nil
  then show ?case by simp
next
  case (Cons p ps)
  obtain k0 v0 where p: "p = (k0, v0)" by (cases p)
  from Cons.prems p have notin: "map_of ps k0 = None" and dist: "distinct (map fst ps)"
    by (auto simp: map_of_eq_None_iff)
  show ?case
  proof (cases "map_of (entries d) k0")
    case (Some cur)
    then have get: "getitem_ad h d k0 = Inr (cur, h, d)"
      by (simp add: getitem_ad_def)
    with Cons.prems(2) p obtain res where sub: "py_sub cur v0 = Inr res"
      and rest: "isub_items ps h (setitem_ad k0 res d) = Inr (h', d')"
      using py_sub_not_KeyError [of cur v0]
      by (cases "py_sub cur v0") (auto split: if_splits)
    from Cons.IH [OF dist rest] notin Some py_sub_difference [OF sub] show ?thesis
      by (auto simp: p setitem_ad_def map_of_dict_set split: option.splits)
  next
    case None
    show ?thesis
    proof (cases "accum d")
      case noacc: None
      with None have get: "getitem_ad h d k0 = Inl KeyError"
        by (simp add: getitem_ad_def missing_ad_def)
      with Cons.prems(2) p have rest: "isub_items ps h (setitem_ad k0 v0 d) = Inr (h', d')"
        by simp
      from Cons.IH [OF dist rest] notin None noacc show ?thesis
        by (auto simp: p setitem_ad_def map_of_dict_set split: option.splits)
    next
      case (Some t)
      obtain val h1 where copy: "deepcopy h t = (val, h1)" by (cases "deepcopy h t")
      with None Some have get: "getitem_ad h d k0 = Inr (val, h1, setitem_ad k0 val d)"
        by (simp add: getitem_ad_def missing_ad_def)
      with Cons.prems(2) p obtain res where sub: "py_sub val v0 = Inr res"
        and rest: "isub_items ps h1 (setitem_ad k0 res (setitem_ad k0 val d)) = Inr (h', d')"
        using py_sub_not_KeyError [of val v0]
        by (cases "py_sub val v0") (auto split: if_splits)
      from sub copy have tv: "val = t" and hh: "h1 = h"
        by (cases t; cases v0; auto simp: heap_alloc_def)+
      from Cons.IH [OF dist rest [unfolded hh]] notin None Some py_sub_difference [OF sub] tv show ?thesis
        by (auto simp: p setitem_ad_def map_of_dict_set split: option.splits)
    qed
  qed
qed

lemma int_valued_dict_set:
  "int_valued kvs \<Longrightarrow> is_int v \<Longrightarrow> int_valued (dict_set k v kvs)"
  by (induction kvs) (auto simp: int_valued_def)

lemma int_valued_dict_update:
  "int_valued dic \<Longrightarrow> int_valued d \<Longrightarrow> int_valued (dict_update dic d)"
proof (induction dic arbitrary: d)
  case Nil
  then show ?case by (simp add: dict_update_def)
next
  case (Cons p ps)
  obtain k0 v0 where p: "p = (k0, v0)" by (cases p)
  from Cons.prems have "is_int v0" and "int_valued ps"
    by (simp_all add: p int_valued_def)
  with Cons.prems(2) have "int_valued (dict_update ps (dict_set k0 v0 d))"
    by (simp add: Cons.IH int_valued_dict_set)
  then show ?case by (simp add: dict_update_def p)
qed

lemma int_valued_lookup:
  "int_valued kvs \<Longrightarrow> map_of kvs k = Some v \<Longrightarrow> is_int v"
  by (induction kvs) (auto simp: int_valued_def split: if_splits)

lemma isub_items_total:
  assumes "int_valued kvs" and "int_valued (entries d)" and "\<forall>t. accum d = Some t \<longrightarrow> is_int t"
  shows "\<exists>d'. isub_items kvs h d = Inr (h, d')"
  using assms
proof (induction kvs arbitrary: d)
  case Nil
  then show ?case by simp
next
  case (Cons p ps)
  obtain k0 v0 where p: "p = (k0, v0)" by (cases p)
  from Cons.prems(1) p obtain j where v0: "v0 = IntV j" and ps: "int_valued ps"
    by (cases v0) (auto simp: int_valued_def)
  have step: "\<exists>d'. isub_items ps h (setitem_ad k0 (IntV i) d1) = Inr (h, d')"
    if "int_valued (entries d1)" and "accum d1 = accum d" for i d1
    using that Cons.prems(3) Cons.IH [OF ps, of "setitem_ad k0 (IntV i) d1"]
    by (simp add: setitem_ad_def int_valued_dict_set)
  show ?case
  proof (cases "map_of (entries d) k0")
    case (Some cur)
    with Cons.prems(2) obtain i where "cur = IntV i"
      using int_valued_lookup [of "entries d" k0 cur] by (cases cur) auto
    with Some step [OF Cons.prems(2) refl, of "i - j"] show ?thesis
      by (simp add: p v0 getitem_ad_def)
  next
    case None
    show ?thesis
    proof (cases "accum d")
      case noacc: None
      with None step [OF Cons.prems(2) refl, of j] show ?thesis
        by (simp add: p v0 getitem_ad_def missing_ad_def)
    next
      case (Some t)
      with Cons.prems(3) obtain i where t: "t = IntV i" by (cases t) auto
      have "int_valued (entries (setitem_ad k0 (IntV i) d))"
        and "accum (setitem_ad k0 (IntV i) d) = accum d"
        using Cons.prems(2) by (simp_all add: setitem_ad_def int_valued_dict_set)
      from step [OF this, of "i - j"] None Some t show ?thesis
        by (simp add: p v0 getitem_ad_def missing_ad_def setitem_ad_def)
    qed
  qed
qed

text \<open>
  Claim C4 fails on the code: \<^verbatim>\<open>__add__\<close> copies the entries of \<^verbatim>\<open>self\<close>, not the
  values, and \<^verbatim>\<open>__iadd__\<close> extends a list value in place. With
  \<^verbatim>\<open>a = AccumDict({'k': [1]})\<close> and \<^verbatim>\<open>b = {'k': [2]}\<close> (the list of \<open>a\<close> at address 0,
  the list of \<open>b\<close> at address 1), \<^verbatim>\<open>a + b\<close> returns \<^verbatim>\<open>{'k': [1, 2]}\<close> and the list held
  by \<open>a\<close> has become \<^verbatim>\<open>[1, 2]\<close> too.
\<close>

theorem add_ad_extends_operand_list:
  "add_ad [[1], [2]] \<lparr>entries = [(''k'', ListV 0)], accum = None\<rparr> (Mapping [(''k'', ListV 1)])
     = Inr ([[1, 2], [2]], \<lparr>entries = [(''k'', ListV 0)], accum = None\<rparr>)
   \<and> dict_view [[1], [2]] [(''k'', ListV 0)] = [(''k'', ListO [1])]
   \<and> dict_view [[1, 2], [2]] [(''k'', ListV 0)] = [(''k'', ListO [1, 2])]"
  by (simp add: add_ad_def iadd_ad_def init_ad_def dict_update_def list_extend_def dict_view_def)

text \<open>
  Claim C5, as stated, fails for \<^verbatim>\<open>a -= b\<close> on an \<^verbatim>\<open>AccumDict\<close> with an accumulator
  template: \<^verbatim>\<open>a = AccumDict(accum=0); a -= {'x': 5}\<close> reads \<^verbatim>\<open>a['x']\<close> through
  \<^verbatim>\<open>__missing__\<close>, which gives 0 and raises no KeyError, and stores \<open>0 - 5\<close>, not 5.
\<close>

theorem isub_template_counterexample:
  "isub_ad [] \<lparr>entries = [], accum = Some (IntV 0)\<rparr> (Mapping [(''x'', IntV 5)])
     = Inr ([], \<lparr>entries = [(''x'', IntV (- 5))], accum = Some (IntV 0)\<rparr>)"
  by (simp add: isub_ad_def getitem_ad_def missing_ad_def setitem_ad_def)

text \<open>
  Claim C5, amended: for an \<^verbatim>\<open>AccumDict\<close> \<open>a\<close> and a mapping \<open>b\<close>, in \<^verbatim>\<open>a - b\<close> and in
  \<^verbatim>\<open>a -= b\<close> a key of both is mapped to \<open>a[k] - b[k]\<close> and a key of \<open>a\<close> alone keeps its
  value; a key of \<open>b\<close> alone is assigned the raw value \<open>b[k]\<close>, not its negation, in
  \<^verbatim>\<open>a - b\<close> and in \<^verbatim>\<open>a -= b\<close> when \<open>a\<close> has no accumulator template, and the template
  minus \<open>b[k]\<close> in \<^verbatim>\<open>a -= b\<close> when \<open>a\<close> has one. On integer values both operations
  succeed.
\<close>

theorem sub_ad_policy:
  assumes "distinct (map fst (entries a))" and "distinct (map fst b)"
  shows "(isub_ad h a (Mapping b) = Inr (h1, a1) \<longrightarrow>
            map_of (entries a1) k = sub_policy (accum a) (map_of (entries a) k) (map_of b k))
         \<and> (sub_ad h a (Mapping b) = Inr (h2, a2) \<longrightarrow>
            map_of (entries a2) k = sub_policy None (map_of (entries a) k) (map_of b k))
         \<and> (int_valued (entries a) \<and> int_valued b \<longrightarrow>
            (\<exists>a'. sub_ad h a (Mapping b) = Inr (h, a'))
            \<and> (accum a = None \<longrightarrow> (\<exists>a'. isub_ad h a (Mapping b) = Inr (h, a'))))"
proof (intro conjI impI)
  assume "isub_ad h a (Mapping b) = Inr (h1, a1)"
  then have "isub_items b h a = Inr (h1, a1)"
    by (simp add: isub_ad_def)
  from isub_items_policy [OF assms(2) this, of k]
  show "map_of (entries a1) k = sub_policy (accum a) (map_of (entries a) k) (map_of b k)"
    by (cases "map_of (entries a) k"; cases "accum a") (auto split: option.splits)
next
  assume "sub_ad h a (Mapping b) = Inr (h2, a2)"
  then have "isub_items b h (init_ad (entries a) None) = Inr (h2, a2)"
    by (simp add: sub_ad_def isub_ad_def)
  from isub_items_policy [OF assms(2) this, of k] map_of_init_ad [OF assms(1), of None k]
  show "map_of (entries a2) k = sub_policy None (map_of (entries a) k) (map_of b k)"
    by (cases "map_of (entries a) k") (auto simp: init_ad_def split: option.splits)
next
  assume ints: "int_valued (entries a) \<and> int_valued b"
  from int_valued_dict_update [of "entries a" "[]"] ints have "int_valued (entries (init_ad (entries a) None))"
    by (simp add: init_ad_def int_valued_def)
  with ints isub_items_total [of b "init_ad (entries a) None" h]
  show "\<exists>a'. sub_ad h a (Mapping b) = Inr (h, a')"
    by (simp add: sub_ad_def isub_ad_def init_ad_def)
next
  assume ints: "int_valued (entries a) \<and> int_valued b" and "accum a = None"
  with isub_items_total [of b a h]
  show "\<exists>a'. isub_ad h a (Mapping b) = Inr (h, a')"
    by (simp add: isub_ad_def)
qed

theorem sub_ad_policy_witness:
  "distinct (map fst (entries \<lparr>entries = [(''a'', IntV 3), (''c'', IntV 9)], accum = None\<rparr>))
   \<and> distinct (map fst [(''x'', IntV 5), (''a'', IntV 1)])
   \<and> int_valued [(''a'', IntV 3), (''c'', IntV 9)] \<and> int_valued [(''x'', IntV 5), (''a'', IntV 1)]
   \<and> isub_ad [] \<lparr>entries = [(''a'', IntV 3), (''c'', IntV 9)], accum = None\<rparr>
        (Mapping [(''x'', IntV 5), (''a'', IntV 1)])
      = Inr ([], \<lparr>entries = [(''a'', IntV 2), (''c'', IntV 9), (''x'', IntV 5)], accum = None\<rparr>)
   \<and> sub_ad [] \<lparr>entries = [(''a'', IntV 3), (''c'', IntV 9)], accum = None\<rparr>
        (Mapping [(''x'', IntV 5), (''a'', IntV 1)])
      = Inr ([], \<lparr>entries = [(''a'', IntV 2), (''c'', IntV 9), (''x'', IntV 5)], accum = None\<rparr>)
   \<and> map_of [(''a'', IntV 2), (''c'', IntV 9), (''x'', IntV 5)] ''x''
      = sub_policy None (map_of [(''a'', IntV 3), (''c'', IntV 9)] ''x'')
          (map_of [(''x'', IntV 5), (''a'', IntV 1)] ''x'')"
proof -
  let ?a = "\<lparr>entries = [(''a'', IntV 3), (''c'', IntV 9)], accum = None\<rparr>"
  let ?b = "[(''x'', IntV 5), (''a'', IntV 1)]"
  let ?r = "\<lparr>entries = [(''a'', IntV 2), (''c'', IntV 9), (''x'', IntV 5)], accum = None\<rparr>"
  have d1: "distinct (map fst (entries ?a))" and d2: "distinct (map fst ?b)"
    by simp_all
  have run1: "isub_ad [] ?a (Mapping ?b) = Inr ([], ?r)"
    by (simp add: isub_ad_def getitem_ad_def missing_ad_def setitem_ad_def)
  have run2: "sub_ad [] ?a (Mapping ?b) = Inr ([], ?r)"
    by (simp add: sub_ad_def init_ad_def dict_update_def isub_ad_def getitem_ad_def
          missing_ad_def setitem_ad_def)
  have ints: "int_valued [(''a'', IntV 3), (''c'', IntV 9)]" "int_valued ?b"
    by (simp_all add: int_valued_def)
  from sub_ad_policy [OF d1 d2, of "[]" "[]" ?r "''x''" "[]" ?r] d1 d2 run1 run2 ints
  show ?thesis by simp
qed

text \<open>
  Claim C6: reading a missing key raises KeyError exactly when no accumulator template
  is configured (and raises nothing else). With a template, the read stores under the
  key and returns a deep copy of the template, worth what the template is worth and, for
  a list, a new object. Two distinct missing keys read one after the other get two
  distinct list objects, neither of which is the template, so that extending one leaves
  the other as it was.
\<close>

theorem missing_key_read:
  assumes "map_of (entries d) k = None"
  shows "(getitem_ad h d k = Inl KeyError \<longleftrightarrow> accum d = None)
         \<and> ((\<exists>e. getitem_ad h d k = Inl e) \<longleftrightarrow> accum d = None)
         \<and> (\<forall>t. accum d = Some t \<longrightarrow>
               (\<exists>val h' d'. getitem_ad h d k = Inr (val, h', d')
                  \<and> (val, h') = deepcopy h t
                  \<and> d' = setitem_ad k val d
                  \<and> map_of (entries d') k = Some val
                  \<and> value_of h' val = value_of h t
                  \<and> (\<forall>r. val = ListV r \<longrightarrow> r = length h)))
         \<and> (\<forall>k2 r. k2 \<noteq> k \<and> map_of (entries d) k2 = None \<and> accum d = Some (ListV r) \<and> r < length h \<longrightarrow>
               (\<exists>r1 h1 d1 r2 h2 d2.
                  getitem_ad h d k = Inr (ListV r1, h1, d1)
                  \<and> getitem_ad h1 d1 k2 = Inr (ListV r2, h2, d2)
                  \<and> map_of (entries d2) k = Some (ListV r1)
                  \<and> map_of (entries d2) k2 = Some (ListV r2)
                  \<and> r1 \<noteq> r2 \<and> r1 \<noteq> r \<and> r2 \<noteq> r
                  \<and> (\<forall>xs. value_of (list_extend h2 r1 xs) (ListV r1) = ListO (h2 ! r1 @ xs)
                          \<and> value_of (list_extend h2 r1 xs) (ListV r2) = value_of h2 (ListV r2)
                          \<and> value_of (list_extend h2 r1 xs) (ListV r) = value_of h2 (ListV r))))"
proof (intro conjI allI impI)
  show "getitem_ad h d k = Inl KeyError \<longleftrightarrow> accum d = None"
    using assms by (auto simp: getitem_ad_def missing_ad_def split: option.splits prod.splits)
  show "(\<exists>e. getitem_ad h d k = Inl e) \<longleftrightarrow> accum d = None"
    using assms by (auto simp: getitem_ad_def missing_ad_def split: option.splits prod.splits)
next
  fix t
  assume acc: "accum d = Some t"
  obtain val h' where copy: "deepcopy h t = (val, h')" by (cases "deepcopy h t")
  have worth: "value_of h' val = value_of h t" and fresh: "\<forall>r. val = ListV r \<longrightarrow> r = length h"
    using copy by (cases t; auto simp: heap_alloc_def)+
  from assms acc copy worth fresh
  show "\<exists>val h' d'. getitem_ad h d k = Inr (val, h', d')
          \<and> (val, h') = deepcopy h t
          \<and> d' = setitem_ad k val d
          \<and> map_of (entries d') k = Some val
          \<and> value_of h' val = value_of h t
          \<and> (\<forall>r. val = ListV r \<longrightarrow> r = length h)"
    by (simp add: getitem_ad_def missing_ad_def setitem_ad_def map_of_dict_set)
next
  fix k2 r
  assume two: "k2 \<noteq> k \<and> map_of (entries d) k2 = None \<and> accum d = Some (ListV r) \<and> r < length h"
  let ?h1 = "h @ [h ! r]"
  let ?d1 = "setitem_ad k (ListV (length h)) d"
  let ?h2 = "?h1 @ [?h1 ! r]"
  let ?d2 = "setitem_ad k2 (ListV (Suc (length h))) ?d1"
  have first: "getitem_ad h d k = Inr (ListV (length h), ?h1, ?d1)"
    using assms two by (simp add: getitem_ad_def missing_ad_def heap_alloc_def)
  have second: "getitem_ad ?h1 ?d1 k2 = Inr (ListV (Suc (length h)), ?h2, ?d2)"
    using two by (simp add: getitem_ad_def missing_ad_def heap_alloc_def setitem_ad_def map_of_dict_set)
  have look: "map_of (entries ?d2) k = Some (ListV (length h))"
       "map_of (entries ?d2) k2 = Some (ListV (Suc (length h)))"
    using two by (auto simp: setitem_ad_def map_of_dict_set)
  have ext: "value_of (list_extend ?h2 (length h) xs) (ListV (length h)) = ListO (?h2 ! length h @ xs)
             \<and> value_of (list_extend ?h2 (length h) xs) (ListV (Suc (length h))) = value_of ?h2 (ListV (Suc (length h)))
             \<and> value_of (list_extend ?h2 (length h) xs) (ListV r) = value_of ?h2 (ListV r)" for xs
    using two by (simp add: list_extend_def nth_append)
  from first second look ext two
  show "\<exists>r1 h1 d1 r2 h2 d2.
          getitem_ad h d k = Inr (ListV r1, h1, d1)
          \<and> getitem_ad h1 d1 k2 = Inr (ListV r2, h2, d2)
          \<and> map_of (entries d2) k = Some (ListV r1)
          \<and> map_of (entries d2) k2 = Some (ListV r2)
          \<and> r1 \<noteq> r2 \<and> r1 \<noteq> r \<and> r2 \<noteq> r
          \<and> (\<forall>xs. value_of (list_extend h2 r1 xs) (ListV r1) = ListO (h2 ! r1 @ xs)
                  \<and> value_of (list_extend h2 r1 xs) (ListV r2) = value_of h2 (ListV r2)
                  \<and> value_of (list_extend h2 r1 xs) (ListV r) = value_of h2 (ListV r))"
    by (intro exI [of _ "length h"] exI [of _ ?h1] exI [of _ ?d1]
          exI [of _ "Suc (length h)"] exI [of _ ?h2] exI [of _ ?d2]) auto
qed

theorem missing_key_read_witness:
  "map_of (entries \<lparr>entries = [], accum = Some (ListV 0)\<rparr>) ''a'' = None
   \<and> \<not> (getitem_ad [[]] \<lparr>entries = [], accum = Some (ListV 0)\<rparr> ''a'' = Inl KeyError)
   \<and> getitem_ad [[]] \<lparr>entries = [], accum = Some (ListV 0)\<rparr> ''a''
      = Inr (ListV 1, [[], []], \<lparr>entries = [(''a'', ListV 1)], accum = Some (ListV 0)\<rparr>)
   \<and> getitem_ad [[], []] \<lparr>entries = [(''a'', ListV 1)], accum = Some (ListV 0)\<rparr> ''b''
      = Inr (ListV 2, [[], [], []],
             \<lparr>entries = [(''a'', ListV 1), (''b'', ListV 2)], accum = Some (ListV 0)\<rparr>)
   \<and> list_extend [[], [], []] 1 [1] = [[], [1], []]"
proof -
  let ?d = "\<lparr>entries = [], accum = Some (ListV 0)\<rparr> :: string AccumDict"
  have absent: "map_of (entries ?d) ''a'' = None"
    by simp
  have reads: "getitem_ad [[]] ?d ''a''
      = Inr (ListV 1, [[], []], \<lparr>entries = [(''a'', ListV 1)], accum = Some (ListV 0)\<rparr>)"
    "getitem_ad [[], []] \<lparr>entries = [(''a'', ListV 1)], accum = Some (ListV 0)\<rparr> ''b''
      = Inr (ListV 2, [[], [], []],
             \<lparr>entries = [(''a'', ListV 1), (''b'', ListV 2)], accum = Some (ListV 0)\<rparr>)"
    by (simp_all add: getitem_ad_def missing_ad_def heap_alloc_def setitem_ad_def)
  have ext: "list_extend [[], [], []] 1 [1] = [[], [1], []]"
    by (simp add: list_extend_def)
  from missing_key_read [OF absent, of "[[]]"] have "\<not> (getitem_ad [[]] ?d ''a'' = Inl KeyError)"
    by simp
  with absent reads ext show ?thesis by simp
qed

section \<open>Properties of SourceFilter\<close>

lemmas filter_examples = indexed_filter_def distance_filter_def dateline_filter_def
  init_filter_def keep_lons_def shift_lons_def one_site_def dateline_sites_def hundred_km_def

lemma idl_fix_None: "idl_fix (min_lon, min_lat, max_lon, max_lat) = None \<longleftrightarrow> min_lon = 0 \<or> max_lon = 0"
  by (auto simp: idl_fix_def)

lemma call_filter_first_raises:
  assumes "sitecol self = Some sc"
    and "filter_source self (case sites_arg of None \<Rightarrow> SiteCollection sc | Some s \<Rightarrow> s) src = Inl err"
  shows "call_filter self (src # sources) sites_arg = ([], Some err)"
  using assms by (simp add: call_filter_def)

text \<open>
  Claim C10: in a filter with the \<^verbatim>\<open>idl\<close> flag set, \<^verbatim>\<open>get_affected_box\<close> returns
  \<^verbatim>\<open>None\<close> exactly when the minimum or the maximum longitude of the enlarged bounding
  box is 0, and then the index query of \<^verbatim>\<open>__call__\<close> is made on \<^verbatim>\<open>None\<close>: the run of the
  filter ends on that source with the TypeError of the index.
\<close>

theorem affected_box_zero_longitude:
  assumes "use_rtree self" and "sitecol self = Some sc" and "idl self = Some True"
    and "box_maxdist (integration_distance_of self) (tectonic_region_type src) = Inr m"
    and "get_bounding_box src m = Inr (min_lon, min_lat, max_lon, max_lat)"
  shows "(get_affected_box self src = Inr None \<longleftrightarrow> min_lon = 0 \<or> max_lon = 0)
         \<and> (min_lon = 0 \<or> max_lon = 0 \<longrightarrow>
              rtree_filtering self ss src = Inl none_box_error
              \<and> call_filter self (src # sources) sites_arg = ([], Some none_box_error))"
proof -
  have box: "get_affected_box self src = Inr (idl_fix (min_lon, min_lat, max_lon, max_lat))"
    using assms by (simp add: get_affected_box_def)
  have none: "rtree_filtering self ss' src = Inl none_box_error" if "min_lon = 0 \<or> max_lon = 0" for ss'
    using that box idl_fix_None [of min_lon min_lat max_lon max_lat]
    by (simp add: rtree_filtering_def)
  have "call_filter self (src # sources) sites_arg = ([], Some none_box_error)"
    if "min_lon = 0 \<or> max_lon = 0"
    using none [OF that] assms(1) by (intro call_filter_first_raises [OF assms(2)]) (simp add: filter_source_def)
  with box none idl_fix_None [of min_lon min_lat max_lon max_lat] show ?thesis
    by auto
qed

theorem affected_box_zero_longitude_witness:
  "use_rtree dateline_filter \<and> sitecol dateline_filter = Some dateline_sites
   \<and> idl dateline_filter = Some True
   \<and> box_maxdist (integration_distance_of dateline_filter) (tectonic_region_type meridian_source)
       = Inr (Distance 100)
   \<and> get_bounding_box meridian_source (Distance 100) = Inr (0, - 1, 2, 1)
   \<and> get_affected_box dateline_filter meridian_source = Inr None
   \<and> call_filter dateline_filter [meridian_source] None = ([], Some none_box_error)"
proof -
  have h: "use_rtree dateline_filter" "sitecol dateline_filter = Some dateline_sites"
    "idl dateline_filter = Some True"
    "box_maxdist (integration_distance_of dateline_filter) (tectonic_region_type meridian_source)
       = Inr (Distance 100)"
    "get_bounding_box meridian_source (Distance 100) = Inr (0, - 1, 2, 1)"
    by (simp_all add: filter_examples meridian_source_def)
  from affected_box_zero_longitude [OF h, of "SiteCollection dateline_sites" "[]" None] h
  show ?thesis by simp
qed












end
